theory Spec2Isabelle
  imports Complex_Main
begin

section \<open>The rate limiter of scripts/exa_rate_limiter.py\<close>

text \<open>
  The limiter keeps one persisted record, read and rewritten by \<open>check_rate_limit\<close> and
  \<open>record_request\<close>. Instants and delays are Python floats; they are modelled as
  \<^typ>\<open>real\<close>, so rounding and overflow of IEEE arithmetic are abstracted away. Counters
  and levels are Python's unbounded integers, modelled as \<^typ>\<open>int\<close>. The clock
  (\<open>time.time()\<close>) is a parameter \<open>now\<close> of every operation.
\<close>

subsection \<open>Configuration\<close>

text \<open>The four limits and the disable flag are read from the environment at import time.\<close>

record config =
  RATE_LIMIT_PER_MINUTE :: int
  RATE_LIMIT_PER_10_MIN :: int
  RATE_LIMIT_PER_HOUR :: int
  RATE_LIMIT_PER_DAY :: int
  RATE_LIMITING_DISABLED :: bool

definition default_config :: config where
  "default_config =
     \<lparr>RATE_LIMIT_PER_MINUTE = 15, RATE_LIMIT_PER_10_MIN = 60, RATE_LIMIT_PER_HOUR = 200,
      RATE_LIMIT_PER_DAY = 1000, RATE_LIMITING_DISABLED = False\<rparr>"

definition BASE_PENALTY_SECONDS :: real where "BASE_PENALTY_SECONDS = 3"
definition MAX_PENALTY_SECONDS :: real where "MAX_PENALTY_SECONDS = 600"
definition PENALTY_MULTIPLIER :: real where "PENALTY_MULTIPLIER = 2"
definition PENALTY_DECAY_MINUTES :: real where "PENALTY_DECAY_MINUTES = 10"
definition BURST_WARNING_THRESHOLD :: real where "BURST_WARNING_THRESHOLD = 3 / 2"
definition BURST_DELAY_THRESHOLD :: real where "BURST_DELAY_THRESHOLD = 2"

subsection \<open>The state and its persisted form\<close>

record RateLimiterState =
  timestamps :: "real list"
  penalty_level :: int
  last_violation_time :: real
  last_request_time :: real
  hourly_count :: int
  hourly_reset :: real
  daily_count :: int
  daily_reset :: real
  version :: int

text \<open>The dataclass defaults: \<open>RateLimiterState()\<close>.\<close>

definition fresh_state :: RateLimiterState where
  "fresh_state =
     \<lparr>timestamps = [], penalty_level = 0, last_violation_time = 0, last_request_time = 0,
      hourly_count = 0, hourly_reset = 0, daily_count = 0, daily_reset = 0, version = 1\<rparr>"

text \<open>
  A JSON object as \<open>from_dict\<close> reads it: each of the nine keys is absent (\<open>None\<close>) or
  present with a value of the type that \<open>to_dict\<close> writes. Objects holding a value of
  another type under one of these keys are outside this type.
\<close>

record json_dict =
  j_version :: "int option"
  j_timestamps :: "real list option"
  j_penalty_level :: "int option"
  j_last_violation_time :: "real option"
  j_last_request_time :: "real option"
  j_hourly_count :: "int option"
  j_hourly_reset :: "real option"
  j_daily_count :: "int option"
  j_daily_reset :: "real option"

text \<open>
  What \<open>json.load\<close> returns: a dict, or any other JSON value (a list, a number, a string,
  a boolean, null), which has no \<open>get\<close> method.
\<close>

datatype json_value = NotADict | JDict json_dict

datatype py_error = AttributeError

text \<open>Python's \<open>xs[-n:]\<close> for positive \<open>n\<close>: the last \<open>n\<close> elements, or all of a shorter list.\<close>

definition last_n :: "nat \<Rightarrow> 'a list \<Rightarrow> 'a list" where
  "last_n n xs = drop (length xs - n) xs"

definition to_dict :: "RateLimiterState \<Rightarrow> json_dict" where
  "to_dict s =
     \<lparr>j_version = Some (version s),
      j_timestamps = Some (last_n 500 (timestamps s)),
      j_penalty_level = Some (penalty_level s),
      j_last_violation_time = Some (last_violation_time s),
      j_last_request_time = Some (last_request_time s),
      j_hourly_count = Some (hourly_count s),
      j_hourly_reset = Some (hourly_reset s),
      j_daily_count = Some (daily_count s),
      j_daily_reset = Some (daily_reset s)\<rparr>"

text \<open>\<open>data.get(key, default)\<close>.\<close>

definition get_default :: "'a option \<Rightarrow> 'a \<Rightarrow> 'a" where
  "get_default v d = (case v of None \<Rightarrow> d | Some x \<Rightarrow> x)"

definition from_dict :: "json_value \<Rightarrow> py_error + RateLimiterState" where
  "from_dict data =
     (case data of
        NotADict \<Rightarrow> Inl AttributeError
      | JDict d \<Rightarrow> Inr
         \<lparr>timestamps = get_default (j_timestamps d) [],
          penalty_level = get_default (j_penalty_level d) 0,
          last_violation_time = get_default (j_last_violation_time d) 0,
          last_request_time = get_default (j_last_request_time d) 0,
          hourly_count = get_default (j_hourly_count d) 0,
          hourly_reset = get_default (j_hourly_reset d) 0,
          daily_count = get_default (j_daily_count d) 0,
          daily_reset = get_default (j_daily_reset d) 0,
          version = get_default (j_version d) 1\<rparr>)"

text \<open>
  The state file: absent; present but \<open>open\<close> raises \<open>IOError\<close>; present but
  \<open>json.load\<close> raises \<open>JSONDecodeError\<close> (an empty file is one such); or holding a JSON
  value.
\<close>

datatype state_file = Missing | Unreadable | Malformed | Parsed json_value

text \<open>
  \<open>_load_state\<close> catches \<open>JSONDecodeError\<close>, \<open>IOError\<close> and \<open>KeyError\<close> only; an
  exception of \<open>from_dict\<close> reaches the caller.
\<close>

definition load_state :: "state_file \<Rightarrow> py_error + RateLimiterState" where
  "load_state f =
     (case f of
        Missing \<Rightarrow> Inr fresh_state
      | Unreadable \<Rightarrow> Inr fresh_state
      | Malformed \<Rightarrow> Inr fresh_state
      | Parsed data \<Rightarrow> from_dict data)"

text \<open>
  \<open>_save_state\<close> is best effort: \<open>ok\<close> says whether creating the directory and opening
  the file for writing succeed; when they raise \<open>IOError\<close> the file stays as it was.
\<close>

definition save_state :: "bool \<Rightarrow> RateLimiterState \<Rightarrow> state_file \<Rightarrow> state_file" where
  "save_state ok s f = (if ok then Parsed (JDict (to_dict s)) else f)"

subsection \<open>Windows, penalty, resets\<close>

definition count_requests_in_window :: "real list \<Rightarrow> real \<Rightarrow> real \<Rightarrow> int" where
  "count_requests_in_window tss window_seconds now =
     (let cutoff = now - window_seconds in int (length (filter (\<lambda>ts. ts > cutoff) tss)))"

text \<open>The level after decay, as \<open>_calculate_current_penalty\<close> computes it.\<close>

definition effective_level :: "RateLimiterState \<Rightarrow> real \<Rightarrow> real" where
  "effective_level s now =
     (let time_since_violation = now - last_violation_time s;
          decay_periods = time_since_violation / (PENALTY_DECAY_MINUTES * 60)
      in real_of_int (penalty_level s) - decay_periods)"

definition calculate_current_penalty :: "RateLimiterState \<Rightarrow> real \<Rightarrow> real" where
  "calculate_current_penalty s now =
     (if penalty_level s = 0 then 0
      else if effective_level s now \<le> 0 then 0
      else min (BASE_PENALTY_SECONDS * (PENALTY_MULTIPLIER powr (effective_level s now - 1)))
               MAX_PENALTY_SECONDS)"

definition reset_counters_if_needed :: "RateLimiterState \<Rightarrow> real \<Rightarrow> RateLimiterState" where
  "reset_counters_if_needed s now =
     (let s1 = (if now \<ge> hourly_reset s
                then s\<lparr>hourly_count := 0, hourly_reset := now + 3600\<rparr> else s)
      in (if now \<ge> daily_reset s1
          then s1\<lparr>daily_count := 0, daily_reset := now + 86400\<rparr> else s1))"

definition prune_old_timestamps :: "real list \<Rightarrow> real \<Rightarrow> real list" where
  "prune_old_timestamps tss now = (let cutoff = now - 3600 in filter (\<lambda>ts. ts > cutoff) tss)"

subsection \<open>Messages\<close>

text \<open>
  An f-string is kept as its pieces: literal text, an integer printed in decimal, and a
  float printed with format \<open>.1f\<close>.
\<close>

datatype piece = Lit string | IntV int | Fixed1 real

type_synonym fstring = "piece list"

text \<open>Python's \<open>int(x)\<close> on a float truncates towards zero.\<close>

definition py_int :: "real \<Rightarrow> int" where
  "py_int x = (if 0 \<le> x then \<lfloor>x\<rfloor> else \<lceil>x\<rceil>)"

definition hourly_message :: "config \<Rightarrow> real \<Rightarrow> fstring" where
  "hourly_message cfg time_until_reset =
     [Lit ''[BLOCKED] Hourly limit reached ('', IntV (RATE_LIMIT_PER_HOUR cfg),
      Lit ''/hour). Resets in '', IntV (py_int (time_until_reset / 60)), Lit '' minutes.'']"

definition daily_message :: "config \<Rightarrow> real \<Rightarrow> fstring" where
  "daily_message cfg time_until_reset =
     [Lit ''[BLOCKED] Daily limit reached ('', IntV (RATE_LIMIT_PER_DAY cfg),
      Lit ''/day). Resets in '', IntV (py_int (time_until_reset / 3600)), Lit '' hours.'']"

definition rate_limited_message :: "int \<Rightarrow> int \<Rightarrow> int \<Rightarrow> real \<Rightarrow> fstring" where
  "rate_limited_message req_1min req_10min level delay =
     [Lit ''[RATE LIMITED] Too many requests ('', IntV req_1min, Lit ''/min, '',
      IntV req_10min, Lit ''/10min). Penalty level '', IntV level, Lit '': waiting '',
      Fixed1 delay, Lit ''s. Slow down to avoid longer delays.'']"

definition warning_message :: "config \<Rightarrow> int \<Rightarrow> int \<Rightarrow> fstring" where
  "warning_message cfg req_1min req_10min =
     [Lit ''[WARNING] High request rate ('', IntV req_1min, Lit ''/min, '',
      IntV req_10min, Lit ''/10min). Limit: '', IntV (RATE_LIMIT_PER_MINUTE cfg),
      Lit ''/min. Slow down to avoid delays.'']"

definition existing_penalty_suffix :: "real \<Rightarrow> fstring" where
  "existing_penalty_suffix delay = [Lit '' (Existing penalty: '', Fixed1 delay, Lit ''s delay)'']"

definition cooldown_message :: "real \<Rightarrow> fstring" where
  "cooldown_message delay =
     [Lit ''[COOLDOWN] Penalty from earlier abuse: '', Fixed1 delay, Lit ''s delay remaining.'']"

subsection \<open>check and record\<close>

type_synonym decision = "bool \<times> real \<times> fstring option"

definition allowed :: "decision \<Rightarrow> bool" where
  "allowed r = fst r"

definition delay_seconds :: "decision \<Rightarrow> real" where
  "delay_seconds r = fst (snd r)"

definition message :: "decision \<Rightarrow> fstring option" where
  "message r = snd (snd r)"

text \<open>
  The decision ladder of \<open>check_rate_limit\<close> after the hard caps: delay, message, whether
  this call is a violation, and the state after the branch taken.
\<close>

definition ladder ::
  "config \<Rightarrow> real \<Rightarrow> RateLimiterState \<Rightarrow> int \<Rightarrow> int \<Rightarrow> real \<Rightarrow> real
     \<Rightarrow> real \<times> fstring option \<times> bool \<times> RateLimiterState" where
  "ladder cfg now s req_1min req_10min max_ratio current_penalty =
     (if max_ratio \<ge> BURST_DELAY_THRESHOLD then
        (let s' = s\<lparr>penalty_level := min (penalty_level s + 1) 10, last_violation_time := now\<rparr>;
             new_penalty = BASE_PENALTY_SECONDS
                 * (PENALTY_MULTIPLIER powr (real_of_int (penalty_level s' - 1)));
             delay = min new_penalty MAX_PENALTY_SECONDS
         in (delay, Some (rate_limited_message req_1min req_10min (penalty_level s') delay),
             True, s'))
      else if max_ratio \<ge> BURST_WARNING_THRESHOLD then
        (if current_penalty > 0
         then (current_penalty,
               Some (warning_message cfg req_1min req_10min @ existing_penalty_suffix current_penalty),
               False, s)
         else (0, Some (warning_message cfg req_1min req_10min), False, s))
      else if current_penalty > 0 then
        (current_penalty, Some (cooldown_message current_penalty), False, s)
      else (0, None, False, s))"

text \<open>The larger of the two observed ratios; a limit that is not positive gives ratio 0.\<close>

definition max_ratio_of :: "config \<Rightarrow> int \<Rightarrow> int \<Rightarrow> real" where
  "max_ratio_of cfg req_1min req_10min =
     (let ratio_1min = (if RATE_LIMIT_PER_MINUTE cfg > 0
                        then real_of_int req_1min / real_of_int (RATE_LIMIT_PER_MINUTE cfg) else 0);
          ratio_10min = (if RATE_LIMIT_PER_10_MIN cfg > 0
                         then real_of_int req_10min / real_of_int (RATE_LIMIT_PER_10_MIN cfg) else 0)
      in max ratio_1min ratio_10min)"

text \<open>
  The body of \<open>check_rate_limit\<close> between \<open>_load_state\<close> and \<open>_save_state\<close>. The second
  component is the state handed to \<open>_save_state\<close>, or \<open>None\<close> on the two early returns,
  which do not reach it.
\<close>

definition check_state :: "config \<Rightarrow> real \<Rightarrow> RateLimiterState \<Rightarrow> decision \<times> RateLimiterState option" where
  "check_state cfg now s0 =
     (let s1 = s0\<lparr>timestamps := prune_old_timestamps (timestamps s0) now\<rparr>;
          s2 = reset_counters_if_needed s1 now;
          req_1min = count_requests_in_window (timestamps s2) 60 now;
          req_10min = count_requests_in_window (timestamps s2) 600 now
      in if hourly_count s2 \<ge> RATE_LIMIT_PER_HOUR cfg then
           ((False, 0, Some (hourly_message cfg (hourly_reset s2 - now))), None)
         else if daily_count s2 \<ge> RATE_LIMIT_PER_DAY cfg then
           ((False, 0, Some (daily_message cfg (daily_reset s2 - now))), None)
         else
           (let max_ratio = max_ratio_of cfg req_1min req_10min;
                current_penalty = calculate_current_penalty s2 now
            in (case ladder cfg now s2 req_1min req_10min max_ratio current_penalty of
                  (delay, msg, violation, s3) \<Rightarrow>
                    (let s4 = (if \<not> violation \<and> max_ratio < 1 \<and> penalty_level s3 > 0
                               then (let time_since_violation = now - last_violation_time s3
                                     in if time_since_violation > 60
                                        then s3\<lparr>penalty_level := max 0 (penalty_level s3 - 1)\<rparr>
                                        else s3)
                               else s3)
                     in ((True, delay, msg), Some s4)))))"

definition check_rate_limit ::
  "config \<Rightarrow> real \<Rightarrow> bool \<Rightarrow> state_file \<Rightarrow> py_error + (decision \<times> state_file)" where
  "check_rate_limit cfg now ok f =
     (if RATE_LIMITING_DISABLED cfg then Inr ((True, 0, None), f)
      else (case load_state f of
              Inl e \<Rightarrow> Inl e
            | Inr s \<Rightarrow>
                (case check_state cfg now s of
                   (r, None) \<Rightarrow> Inr (r, f)
                 | (r, Some s') \<Rightarrow> Inr (r, save_state ok s' f))))"

text \<open>The body of \<open>record_request\<close> between \<open>_load_state\<close> and \<open>_save_state\<close>.\<close>

definition record_state :: "real \<Rightarrow> RateLimiterState \<Rightarrow> RateLimiterState" where
  "record_state now s0 =
     (let s1 = s0\<lparr>timestamps := timestamps s0 @ [now]\<rparr>;
          s2 = s1\<lparr>timestamps := prune_old_timestamps (timestamps s1) now\<rparr>;
          s3 = reset_counters_if_needed s2 now
      in s3\<lparr>hourly_count := hourly_count s3 + 1, daily_count := daily_count s3 + 1,
            last_request_time := now\<rparr>)"

definition record_request :: "config \<Rightarrow> real \<Rightarrow> bool \<Rightarrow> state_file \<Rightarrow> py_error + state_file" where
  "record_request cfg now ok f =
     (if RATE_LIMITING_DISABLED cfg then Inr f
      else (case load_state f of
              Inl e \<Rightarrow> Inl e
            | Inr s \<Rightarrow> Inr (save_state ok (record_state now s) f)))"

subsection \<open>Sequences of calls\<close>

text \<open>
  A caller's history: each call with the clock reading it sees and whether its write to
  the state file succeeds. \<open>run_calls\<close> threads the state file through the calls in order
  and collects the decisions of the checks; an exception ends the run.
\<close>

datatype call = Check real bool | Record real bool

fun run_calls :: "config \<Rightarrow> call list \<Rightarrow> state_file \<Rightarrow> py_error + (decision list \<times> state_file)" where
  "run_calls cfg [] f = Inr ([], f)"
| "run_calls cfg (Check now ok # cs) f =
     (case check_rate_limit cfg now ok f of
        Inl e \<Rightarrow> Inl e
      | Inr (r, f') \<Rightarrow>
          (case run_calls cfg cs f' of
             Inl e \<Rightarrow> Inl e
           | Inr (rs, f'') \<Rightarrow> Inr (r # rs, f'')))"
| "run_calls cfg (Record now ok # cs) f =
     (case record_request cfg now ok f of
        Inl e \<Rightarrow> Inl e
      | Inr f' \<Rightarrow> run_calls cfg cs f')"

subsection \<open>Views of a check used in the statements\<close>

text \<open>
  The state \<open>check_rate_limit\<close> decides on: the loaded state after
  \<open>_prune_old_timestamps\<close> and \<open>_reset_counters_if_needed\<close>.
\<close>

definition normalized :: "real \<Rightarrow> RateLimiterState \<Rightarrow> RateLimiterState" where
  "normalized now s =
     reset_counters_if_needed (s\<lparr>timestamps := prune_old_timestamps (timestamps s) now\<rparr>) now"

text \<open>The value of \<open>max_ratio\<close> in a check at \<open>now\<close> that loads \<open>s\<close>.\<close>

definition observed_ratio :: "config \<Rightarrow> real \<Rightarrow> RateLimiterState \<Rightarrow> real" where
  "observed_ratio cfg now s =
     max_ratio_of cfg
       (count_requests_in_window (prune_old_timestamps (timestamps s) now) 60 now)
       (count_requests_in_window (prune_old_timestamps (timestamps s) now) 600 now)"

subsection \<open>States used as concrete inputs\<close>

text \<open>
  A stored state at the default hourly cap, with one old timestamp, a penalty level of 1
  from a violation at instant 0, and an hourly window that ends at instant 5000.
\<close>

definition capped_state :: RateLimiterState where
  "capped_state = fresh_state\<lparr>timestamps := [1], penalty_level := 1,
      hourly_count := 200, hourly_reset := 5000\<rparr>"

text \<open>A stored state with no requests and a penalty level of 1 from a violation at instant 0.\<close>

definition cooled_state :: RateLimiterState where
  "cooled_state = fresh_state\<lparr>penalty_level := 1\<rparr>"

text \<open>A stored state with no requests and a penalty level of 4 from a violation at instant 0.\<close>

definition penalised_state :: RateLimiterState where
  "penalised_state = fresh_state\<lparr>penalty_level := 4\<rparr>"

text \<open>The default configuration with the hourly limit overridden to 0.\<close>

definition zero_hourly_config :: config where
  "zero_hourly_config = default_config\<lparr>RATE_LIMIT_PER_HOUR := 0\<rparr>"

subsection \<open>Counting the records of a history\<close>

fun is_record :: "call \<Rightarrow> bool" where
  "is_record (Record now ok) = True"
| "is_record (Check now ok) = False"

text \<open>The state file loads, and both stored counters are at most \<open>k\<close>.\<close>

definition counts_within :: "nat \<Rightarrow> state_file \<Rightarrow> bool" where
  "counts_within k f =
     (\<exists>s. load_state f = Inr s \<and> hourly_count s \<le> int k \<and> daily_count s \<le> int k)"

subsection \<open>Bursts of records\<close>

text \<open>A burst: one \<open>record_request\<close> per instant of the list, each write succeeding.\<close>

definition burst :: "real list \<Rightarrow> call list" where
  "burst ts = map (\<lambda>t. Record t True) ts"

text \<open>The delay of the violation branch of \<open>check_rate_limit\<close> at the new penalty level.\<close>

definition violation_delay :: "int \<Rightarrow> real" where
  "violation_delay level =
     min (BASE_PENALTY_SECONDS * (PENALTY_MULTIPLIER powr real_of_int (level - 1)))
         MAX_PENALTY_SECONDS"

text \<open>The decisions of a history, and the penalty level in the state file it leaves.\<close>

definition decisions :: "py_error + (decision list \<times> state_file) \<Rightarrow> decision list" where
  "decisions res = (case res of Inl e \<Rightarrow> [] | Inr (rs, f) \<Rightarrow> rs)"

definition stored_penalty_level :: "py_error + (decision list \<times> state_file) \<Rightarrow> int option" where
  "stored_penalty_level res =
     (case res of
        Inl e \<Rightarrow> None
      | Inr (rs, f) \<Rightarrow> (case load_state f of Inl e \<Rightarrow> None | Inr s \<Rightarrow> Some (penalty_level s)))"

text \<open>A stored state with no requests and the penalty level at its cap.\<close>

definition maxed_state :: RateLimiterState where
  "maxed_state = fresh_state\<lparr>penalty_level := 10\<rparr>"

text \<open>How many of the last timestamps of the list are newer than \<open>c\<close>.\<close>

definition recent_run :: "real \<Rightarrow> real list \<Rightarrow> nat" where
  "recent_run c xs = length (takeWhile (\<lambda>z. c < z) (rev xs))"

section \<open>Properties\<close>

subsection \<open>Persistence\<close>

lemma from_dict_to_dict:
  "from_dict (JDict (to_dict s)) = Inr (s\<lparr>timestamps := last_n 500 (timestamps s)\<rparr>)"
  by (simp add: from_dict_def to_dict_def get_default_def)

lemma load_save:
  "load_state f = Inr s0 \<Longrightarrow>
   load_state (save_state ok s f)
     = Inr (if ok then s\<lparr>timestamps := last_n 500 (timestamps s)\<rparr> else s0)"
  by (simp add: load_state_def save_state_def from_dict_to_dict)

text \<open>
  C9. Writing a state in its persisted form and reading it back gives the same state,
  every field equal, except that \<open>timestamps\<close> keeps only its last 500 entries. This holds
  for \<open>to_dict\<close> followed by \<open>from_dict\<close>, and for a successful \<open>_save_state\<close> followed by
  \<open>_load_state\<close>, whatever the file held before.
\<close>

theorem persistence_round_trip:
  "from_dict (JDict (to_dict s)) = Inr (s\<lparr>timestamps := last_n 500 (timestamps s)\<rparr>)
   \<and> load_state (save_state True s f) = Inr (s\<lparr>timestamps := last_n 500 (timestamps s)\<rparr>)"
  by (simp add: load_state_def save_state_def from_dict_to_dict)

subsection \<open>Frame of record\<close>

lemma reset_counters_frame:
  "penalty_level (reset_counters_if_needed s now) = penalty_level s"
  "last_violation_time (reset_counters_if_needed s now) = last_violation_time s"
  "version (reset_counters_if_needed s now) = version s"
  "timestamps (reset_counters_if_needed s now) = timestamps s"
  "last_request_time (reset_counters_if_needed s now) = last_request_time s"
  by (simp_all add: reset_counters_if_needed_def Let_def)

lemma record_state_frame:
  "penalty_level (record_state now s) = penalty_level s"
  "last_violation_time (record_state now s) = last_violation_time s"
  "version (record_state now s) = version s"
  by (simp_all add: record_state_def Let_def reset_counters_frame)

text \<open>
  C10. A \<open>record_request\<close> call leaves \<open>penalty_level\<close> and \<open>last_violation_time\<close> as they
  were: in the state it computes, and in the state file it leaves behind (read back with
  \<open>_load_state\<close>), whether or not the write succeeds and whether or not limiting is
  disabled.
\<close>

theorem record_request_frame:
  assumes "load_state f = Inr s"
  shows "penalty_level (record_state now s) = penalty_level s
       \<and> last_violation_time (record_state now s) = last_violation_time s
       \<and> (\<exists>f' s'. record_request cfg now ok f = Inr f' \<and> load_state f' = Inr s'
            \<and> penalty_level s' = penalty_level s
            \<and> last_violation_time s' = last_violation_time s)"
  using assms
  by (cases "RATE_LIMITING_DISABLED cfg")
     (simp_all add: record_request_def record_state_frame load_save)

theorem record_request_frame_witness:
  "load_state Missing = Inr fresh_state
   \<and> (\<exists>f' s'. record_request default_config 1000 True Missing = Inr f' \<and> load_state f' = Inr s'
            \<and> penalty_level s' = 0 \<and> last_violation_time s' = 0 \<and> hourly_count s' = 1
            \<and> timestamps s' = [1000])"
  using record_request_frame [of Missing fresh_state 1000 default_config True]
  by (simp add: load_state_def fresh_state_def record_request_def default_config_def
      save_state_def from_dict_to_dict record_state_def Let_def prune_old_timestamps_def
      reset_counters_if_needed_def last_n_def)

subsection \<open>The branches of a check\<close>

lemma normalized_frame:
  "penalty_level (normalized now s) = penalty_level s"
  "last_violation_time (normalized now s) = last_violation_time s"
  "version (normalized now s) = version s"
  "timestamps (normalized now s) = prune_old_timestamps (timestamps s) now"
  "last_request_time (normalized now s) = last_request_time s"
  by (simp_all add: normalized_def reset_counters_frame)

lemma normalized_resets:
  "now < hourly_reset (normalized now s)" "now < daily_reset (normalized now s)"
  by (simp_all add: normalized_def reset_counters_if_needed_def Let_def)

lemma normalized_hourly:
  "hourly_count (normalized now s) = (if now \<ge> hourly_reset s then 0 else hourly_count s)"
  "hourly_reset (normalized now s) = (if now \<ge> hourly_reset s then now + 3600 else hourly_reset s)"
  "daily_count (normalized now s) = (if now \<ge> daily_reset s then 0 else daily_count s)"
  "daily_reset (normalized now s) = (if now \<ge> daily_reset s then now + 86400 else daily_reset s)"
  by (simp_all add: normalized_def reset_counters_if_needed_def Let_def)

lemma prune_recent: "t \<in> set (prune_old_timestamps tss now) \<Longrightarrow> now - 3600 < t"
  by (simp add: prune_old_timestamps_def Let_def)

lemma check_state_hourly:
  "RATE_LIMIT_PER_HOUR cfg \<le> hourly_count (normalized now s) \<Longrightarrow>
   check_state cfg now s
     = ((False, 0, Some (hourly_message cfg (hourly_reset (normalized now s) - now))), None)"
  by (simp add: check_state_def normalized_def Let_def)

lemma check_state_daily:
  "\<not> RATE_LIMIT_PER_HOUR cfg \<le> hourly_count (normalized now s) \<Longrightarrow>
   RATE_LIMIT_PER_DAY cfg \<le> daily_count (normalized now s) \<Longrightarrow>
   check_state cfg now s
     = ((False, 0, Some (daily_message cfg (daily_reset (normalized now s) - now))), None)"
  by (simp add: check_state_def normalized_def Let_def)

lemma check_state_violation:
  "\<not> RATE_LIMIT_PER_HOUR cfg \<le> hourly_count (normalized now s) \<Longrightarrow>
   \<not> RATE_LIMIT_PER_DAY cfg \<le> daily_count (normalized now s) \<Longrightarrow>
   BURST_DELAY_THRESHOLD \<le> observed_ratio cfg now s \<Longrightarrow>
   check_state cfg now s
     = (let level = min (penalty_level s + 1) 10;
            delay = min (BASE_PENALTY_SECONDS * (PENALTY_MULTIPLIER powr (real_of_int (level - 1))))
                        MAX_PENALTY_SECONDS
        in ((True, delay,
             Some (rate_limited_message
                     (count_requests_in_window (prune_old_timestamps (timestamps s) now) 60 now)
                     (count_requests_in_window (prune_old_timestamps (timestamps s) now) 600 now)
                     level delay)),
            Some ((normalized now s)\<lparr>penalty_level := level, last_violation_time := now\<rparr>)))"
  by (simp add: check_state_def ladder_def Let_def observed_ratio_def normalized_frame
      flip: normalized_def)

lemma check_state_calm:
  "\<not> RATE_LIMIT_PER_HOUR cfg \<le> hourly_count (normalized now s) \<Longrightarrow>
   \<not> RATE_LIMIT_PER_DAY cfg \<le> daily_count (normalized now s) \<Longrightarrow>
   \<not> BURST_DELAY_THRESHOLD \<le> observed_ratio cfg now s \<Longrightarrow>
   \<exists>delay msg. check_state cfg now s
     = ((True, delay, msg),
        Some (if observed_ratio cfg now s < 1 \<and> penalty_level s > 0
                 \<and> now - last_violation_time s > 60
              then (normalized now s)\<lparr>penalty_level := max 0 (penalty_level s - 1)\<rparr>
              else normalized now s))"
  by (simp add: check_state_def ladder_def Let_def observed_ratio_def normalized_frame
      flip: normalized_def)

lemma check_rate_limit_loaded:
  "\<not> RATE_LIMITING_DISABLED cfg \<Longrightarrow> load_state f = Inr s \<Longrightarrow>
   check_rate_limit cfg now ok f
     = (case check_state cfg now s of
          (r, None) \<Rightarrow> Inr (r, f)
        | (r, Some s') \<Rightarrow> Inr (r, save_state ok s' f))"
  by (simp add: check_rate_limit_def)

lemma check_state_shape:
  "(\<exists>m. check_state cfg now s = ((False, 0, Some m), None))
   \<or> (\<exists>d m s'. check_state cfg now s = ((True, d, m), Some s'))"
proof (cases "RATE_LIMIT_PER_HOUR cfg \<le> hourly_count (normalized now s)")
  case True
  then show ?thesis by (simp add: check_state_hourly)
next
  case h: False
  show ?thesis
  proof (cases "RATE_LIMIT_PER_DAY cfg \<le> daily_count (normalized now s)")
    case True
    with h show ?thesis by (simp add: check_state_daily)
  next
    case d: False
    show ?thesis
    proof (cases "BURST_DELAY_THRESHOLD \<le> observed_ratio cfg now s")
      case True
      with h d show ?thesis by (simp add: check_state_violation Let_def)
    next
      case False
      with h d check_state_calm [of cfg now s] show ?thesis by auto
    qed
  qed
qed

lemma check_state_level_bounds:
  assumes "0 \<le> penalty_level s" "penalty_level s \<le> 10"
    and "check_state cfg now s = (r, Some s')"
  shows "0 \<le> penalty_level s' \<and> penalty_level s' \<le> 10"
proof (cases "RATE_LIMIT_PER_HOUR cfg \<le> hourly_count (normalized now s)")
  case True
  with assms(3) show ?thesis by (simp add: check_state_hourly)
next
  case h: False
  show ?thesis
  proof (cases "RATE_LIMIT_PER_DAY cfg \<le> daily_count (normalized now s)")
    case True
    with h assms(3) show ?thesis by (simp add: check_state_daily)
  next
    case d: False
    show ?thesis
    proof (cases "BURST_DELAY_THRESHOLD \<le> observed_ratio cfg now s")
      case True
      with h d assms show ?thesis by (auto simp: check_state_violation Let_def)
    next
      case False
      with h d check_state_calm [of cfg now s] assms show ?thesis
        by (auto simp: normalized_frame split: if_splits)
    qed
  qed
qed

subsection \<open>Bounds of the penalty level\<close>

text \<open>
  C8. From a stored state with \<open>0 \<le> penalty_level \<le> 10\<close>, one \<open>check_rate_limit\<close>
  call and one \<open>record_request\<close> call each return normally and leave a state file whose
  \<open>penalty_level\<close> is again between 0 and 10: a violation adds one and caps at 10, the
  good-behaviour decay subtracts one and floors at 0, a refusal and a record leave it alone.
\<close>

theorem penalty_level_invariant:
  assumes "load_state f = Inr s" and "0 \<le> penalty_level s" and "penalty_level s \<le> 10"
  shows "(\<exists>r f' s'. check_rate_limit cfg now ok f = Inr (r, f') \<and> load_state f' = Inr s'
            \<and> 0 \<le> penalty_level s' \<and> penalty_level s' \<le> 10)
       \<and> (\<exists>f' s'. record_request cfg now ok f = Inr f' \<and> load_state f' = Inr s'
            \<and> 0 \<le> penalty_level s' \<and> penalty_level s' \<le> 10)"
proof
  show "\<exists>r f' s'. check_rate_limit cfg now ok f = Inr (r, f') \<and> load_state f' = Inr s'
            \<and> 0 \<le> penalty_level s' \<and> penalty_level s' \<le> 10"
  proof (cases "RATE_LIMITING_DISABLED cfg")
    case True
    with assms show ?thesis by (auto simp: check_rate_limit_def)
  next
    case en: False
    from check_state_shape [of cfg now s] show ?thesis
    proof
      assume "\<exists>m. check_state cfg now s = ((False, 0, Some m), None)"
      with en assms show ?thesis by (auto simp: check_rate_limit_loaded)
    next
      assume "\<exists>d m s'. check_state cfg now s = ((True, d, m), Some s')"
      then obtain d m s' where c: "check_state cfg now s = ((True, d, m), Some s')" by blast
      from check_state_level_bounds [OF assms(2,3) c]
      have "0 \<le> penalty_level s' \<and> penalty_level s' \<le> 10" .
      with en assms c show ?thesis
        by (cases ok) (auto simp: check_rate_limit_loaded load_save)
    qed
  qed
next
  from assms
  show "\<exists>f' s'. record_request cfg now ok f = Inr f' \<and> load_state f' = Inr s'
            \<and> 0 \<le> penalty_level s' \<and> penalty_level s' \<le> 10"
    by (cases "RATE_LIMITING_DISABLED cfg")
       (auto simp: record_request_def record_state_frame load_save)
qed

theorem penalty_level_invariant_witness:
  "load_state Missing = Inr fresh_state \<and> 0 \<le> penalty_level fresh_state
   \<and> penalty_level fresh_state \<le> 10
   \<and> (\<exists>r f' s'. check_rate_limit default_config 1000 True Missing = Inr (r, f')
         \<and> load_state f' = Inr s' \<and> 0 \<le> penalty_level s' \<and> penalty_level s' \<le> 10)
   \<and> (\<exists>f' s'. record_request default_config 1000 True Missing = Inr f'
         \<and> load_state f' = Inr s' \<and> 0 \<le> penalty_level s' \<and> penalty_level s' \<le> 10)"
proof -
  have l: "load_state Missing = Inr fresh_state" by (simp add: load_state_def)
  have a: "0 \<le> penalty_level fresh_state" and b: "penalty_level fresh_state \<le> 10"
    by (simp_all add: fresh_state_def)
  from penalty_level_invariant [OF l a b, of default_config 1000 True] l a b
  show ?thesis by simp
qed

subsection \<open>Unreadable and corrupted state files\<close>

lemma load_state_no_history:
  "f = Missing \<or> f = Unreadable \<or> f = Malformed \<Longrightarrow> load_state f = Inr fresh_state"
  by (auto simp: load_state_def)

text \<open>
  C6. A missing, unreadable or malformed state file loads as the fresh state
  (\<open>load_state_no_history\<close>), but a state file holding valid JSON that is not an object
  (for instance the text \<open>[]\<close>) does not: \<open>from_dict\<close> calls \<open>get\<close> on it, the
  \<open>AttributeError\<close> is not among the exceptions \<open>_load_state\<close> catches, and
  \<open>check_rate_limit\<close> raises it to the caller.
\<close>

theorem check_non_object_state_file_raises:
  "check_rate_limit default_config 1000 True (Parsed NotADict) = Inl AttributeError"
  by (simp add: check_rate_limit_def default_config_def load_state_def from_dict_def)

subsection \<open>Loading and persisting\<close>

lemma check_state_proceeds:
  assumes "\<not> RATE_LIMIT_PER_HOUR cfg \<le> hourly_count (normalized now s)"
    and "\<not> RATE_LIMIT_PER_DAY cfg \<le> daily_count (normalized now s)"
  shows "\<exists>d m s'. check_state cfg now s = ((True, d, m), Some s')"
proof (cases "BURST_DELAY_THRESHOLD \<le> observed_ratio cfg now s")
  case True
  with assms show ?thesis by (simp add: check_state_violation Let_def)
next
  case False
  with assms check_state_calm [of cfg now s] show ?thesis by blast
qed

lemma check_state_saved:
  assumes "check_state cfg now s = (r, Some s')"
  shows "allowed r \<and> timestamps s' = prune_old_timestamps (timestamps s) now
         \<and> now < hourly_reset s' \<and> now < daily_reset s'"
proof (cases "RATE_LIMIT_PER_HOUR cfg \<le> hourly_count (normalized now s)")
  case True
  with assms show ?thesis by (simp add: check_state_hourly)
next
  case h: False
  show ?thesis
  proof (cases "RATE_LIMIT_PER_DAY cfg \<le> daily_count (normalized now s)")
    case True
    with h assms show ?thesis by (simp add: check_state_daily)
  next
    case d: False
    show ?thesis
    proof (cases "BURST_DELAY_THRESHOLD \<le> observed_ratio cfg now s")
      case True
      with h d assms show ?thesis
        by (auto simp: check_state_violation Let_def allowed_def normalized_frame normalized_resets)
    next
      case False
      with h d check_state_calm [of cfg now s] assms show ?thesis
        by (auto simp: allowed_def normalized_frame normalized_resets split: if_splits)
    qed
  qed
qed

lemma check_state_refused:
  assumes "check_state cfg now s = (r, None)"
  shows "\<not> allowed r"
  using assms check_state_shape [of cfg now s] by (auto simp: allowed_def)

lemma record_state_normalized:
  "timestamps (record_state now s) = prune_old_timestamps (timestamps s @ [now]) now"
  "now < hourly_reset (record_state now s)"
  "now < daily_reset (record_state now s)"
  by (simp_all add: record_state_def Let_def reset_counters_frame reset_counters_if_needed_def)

text \<open>
  C3, as the code has it. With limiting enabled, \<open>record_request\<close> loads the state file
  and hands the recorded state to \<open>_save_state\<close>, and that state is pruned to the last
  hour and has both reset instants in the future. \<open>check_rate_limit\<close> loads the state
  file too; when it allows the call it hands its final state to \<open>_save_state\<close>, pruned
  and reset in the same way; when it refuses on a hard cap it returns before
  \<open>_save_state\<close> and the state file is left exactly as it was.
\<close>

theorem load_and_persist:
  assumes "\<not> RATE_LIMITING_DISABLED cfg" and "load_state f = Inr s"
  shows "record_request cfg now ok f = Inr (save_state ok (record_state now s) f)
       \<and> (\<forall>t\<in>set (timestamps (record_state now s)). now - 3600 < t)
       \<and> now < hourly_reset (record_state now s) \<and> now < daily_reset (record_state now s)
       \<and> (\<exists>r f'. check_rate_limit cfg now ok f = Inr (r, f')
            \<and> (if allowed r
                then \<exists>s'. check_state cfg now s = (r, Some s') \<and> f' = save_state ok s' f
                       \<and> (\<forall>t\<in>set (timestamps s'). now - 3600 < t)
                       \<and> now < hourly_reset s' \<and> now < daily_reset s'
                else check_state cfg now s = (r, None) \<and> f' = f))"
proof -
  have rec: "record_request cfg now ok f = Inr (save_state ok (record_state now s) f)"
    using assms by (simp add: record_request_def)
  have pr: "\<forall>t\<in>set (timestamps (record_state now s)). now - 3600 < t"
    by (auto simp: record_state_normalized dest: prune_recent)
  have chk: "\<exists>r f'. check_rate_limit cfg now ok f = Inr (r, f')
            \<and> (if allowed r
                then \<exists>s'. check_state cfg now s = (r, Some s') \<and> f' = save_state ok s' f
                       \<and> (\<forall>t\<in>set (timestamps s'). now - 3600 < t)
                       \<and> now < hourly_reset s' \<and> now < daily_reset s'
                else check_state cfg now s = (r, None) \<and> f' = f)"
  proof (cases "check_state cfg now s")
    case (Pair r o')
    show ?thesis
    proof (cases o')
      case None
      with Pair have c: "check_state cfg now s = (r, None)" by simp
      from check_state_refused [OF c] c assms show ?thesis
        by (simp add: check_rate_limit_loaded)
    next
      case (Some s')
      with Pair have c: "check_state cfg now s = (r, Some s')" by simp
      from check_state_saved [OF c] c assms show ?thesis
        by (auto simp: check_rate_limit_loaded dest: prune_recent)
    qed
  qed
  from rec pr chk show ?thesis by (simp add: record_state_normalized)
qed

theorem load_and_persist_witness:
  "load_state Missing = Inr fresh_state
   \<and> record_request default_config 1000 True Missing
       = Inr (save_state True (record_state 1000 fresh_state) Missing)
   \<and> 1000 < hourly_reset (record_state 1000 fresh_state)
   \<and> 1000 < daily_reset (record_state 1000 fresh_state)
   \<and> (\<exists>r f' s'. check_rate_limit default_config 1000 True Missing = Inr (r, f')
        \<and> allowed r \<and> check_state default_config 1000 fresh_state = (r, Some s')
        \<and> f' = save_state True s' Missing
        \<and> 1000 < hourly_reset s' \<and> 1000 < daily_reset s')"
proof -
  have e: "\<not> RATE_LIMITING_DISABLED default_config" by (simp add: default_config_def)
  have l: "load_state Missing = Inr fresh_state" by (simp add: load_state_def)
  have "\<not> RATE_LIMIT_PER_HOUR default_config \<le> hourly_count (normalized 1000 fresh_state)"
    and "\<not> RATE_LIMIT_PER_DAY default_config \<le> daily_count (normalized 1000 fresh_state)"
    by (simp_all add: normalized_hourly fresh_state_def default_config_def)
  then have a: "\<exists>r s'. check_state default_config 1000 fresh_state = (r, Some s')"
    using check_state_proceeds by blast
  from load_and_persist [OF e l, of 1000 True] l a show ?thesis
    by (auto split: if_splits)
qed

lemma capped_state_file:
  "load_state (Parsed (JDict (to_dict capped_state))) = Inr capped_state"
  by (simp add: load_state_def from_dict_to_dict capped_state_def fresh_state_def last_n_def)

text \<open>
  C3 as stated fails on a refusal. The state file holds \<open>capped_state\<close>; a check at
  instant 4000 is refused on the hourly cap and leaves the file as it was, although the
  pruned and reset state differs from it: the timestamp 1 is older than an hour and the
  daily reset instant 0 has passed.
\<close>

theorem refused_check_does_not_persist:
  "check_rate_limit default_config 4000 True (Parsed (JDict (to_dict capped_state)))
     = Inr ((False, 0, Some (hourly_message default_config 1000)),
            Parsed (JDict (to_dict capped_state)))
   \<and> load_state (Parsed (JDict (to_dict capped_state))) = Inr capped_state
   \<and> timestamps capped_state = [1] \<and> timestamps (normalized 4000 capped_state) = []
   \<and> daily_reset capped_state = 0 \<and> daily_reset (normalized 4000 capped_state) = 90400"
proof -
  have e: "\<not> RATE_LIMITING_DISABLED default_config" by (simp add: default_config_def)
  have n: "hourly_count (normalized 4000 capped_state) = 200"
          "hourly_reset (normalized 4000 capped_state) = 5000"
          "daily_reset (normalized 4000 capped_state) = 90400"
    by (simp_all add: normalized_hourly capped_state_def fresh_state_def)
  have t: "timestamps (normalized 4000 capped_state) = []"
    by (simp add: normalized_frame capped_state_def prune_old_timestamps_def)
  have c: "check_state default_config 4000 capped_state
             = ((False, 0, Some (hourly_message default_config 1000)), None)"
    using check_state_hourly [of default_config 4000 capped_state] n
    by (simp add: default_config_def)
  from e c n t show ?thesis
    by (simp add: check_rate_limit_loaded [OF e capped_state_file] capped_state_file)
       (simp add: capped_state_def fresh_state_def)
qed

subsection \<open>Good-behaviour decay\<close>

text \<open>
  C7 as stated fails on a refusal. The state file holds \<open>capped_state\<close>; at instant 1000
  there is no violation, the ratio is below 1, the penalty level is 1 and 1000 seconds
  have passed since the last violation, yet the check is refused on the hourly cap and the
  stored penalty level stays 1.
\<close>

theorem refused_check_does_not_decay:
  "load_state (Parsed (JDict (to_dict capped_state))) = Inr capped_state
   \<and> observed_ratio default_config 1000 capped_state < 1
   \<and> 0 < penalty_level capped_state
   \<and> 60 \<le> 1000 - last_violation_time capped_state
   \<and> check_rate_limit default_config 1000 True (Parsed (JDict (to_dict capped_state)))
     = Inr ((False, 0, Some (hourly_message default_config 4000)),
            Parsed (JDict (to_dict capped_state)))
   \<and> penalty_level capped_state = 1"
proof -
  have e: "\<not> RATE_LIMITING_DISABLED default_config" by (simp add: default_config_def)
  have n: "hourly_count (normalized 1000 capped_state) = 200"
          "hourly_reset (normalized 1000 capped_state) = 5000"
    by (simp_all add: normalized_hourly capped_state_def fresh_state_def)
  have c: "check_state default_config 1000 capped_state
             = ((False, 0, Some (hourly_message default_config 4000)), None)"
    using check_state_hourly [of default_config 1000 capped_state] n
    by (simp add: default_config_def)
  have r: "observed_ratio default_config 1000 capped_state < 1"
    by (simp add: observed_ratio_def max_ratio_of_def count_requests_in_window_def
        prune_old_timestamps_def capped_state_def default_config_def)
  from e c r show ?thesis
    by (simp add: check_rate_limit_loaded [OF e capped_state_file] capped_state_file)
       (simp add: capped_state_def fresh_state_def)
qed

text \<open>
  C7, as the code has it. In a check whose write succeeds and in which no violation
  occurs: when the call is allowed, the ratio is below 1, the penalty level is positive
  and more than 60 seconds have passed since the last violation, the stored penalty level
  drops by exactly 1 and stays non-negative; when the call is refused, or the ratio is
  not below 1, or the penalty level is not positive, or fewer than 60 seconds have passed,
  the stored penalty level is unchanged. Nothing is said of exactly 60 seconds.
\<close>

theorem good_behavior_decay:
  assumes "\<not> RATE_LIMITING_DISABLED cfg" and "load_state f = Inr s"
    and "check_rate_limit cfg now True f = Inr (r, f')"
    and "\<not> BURST_DELAY_THRESHOLD \<le> observed_ratio cfg now s"
  shows "\<exists>s'. load_state f' = Inr s'
     \<and> (allowed r \<and> observed_ratio cfg now s < 1 \<and> 0 < penalty_level s
          \<and> 60 < now - last_violation_time s
        \<longrightarrow> penalty_level s' = penalty_level s - 1 \<and> 0 \<le> penalty_level s')
     \<and> (\<not> allowed r \<or> \<not> observed_ratio cfg now s < 1 \<or> \<not> 0 < penalty_level s
          \<or> now - last_violation_time s < 60
        \<longrightarrow> penalty_level s' = penalty_level s)"
proof (cases "RATE_LIMIT_PER_HOUR cfg \<le> hourly_count (normalized now s)")
  case True
  with assms show ?thesis
    by (auto simp: check_rate_limit_loaded check_state_hourly allowed_def)
next
  case h: False
  show ?thesis
  proof (cases "RATE_LIMIT_PER_DAY cfg \<le> daily_count (normalized now s)")
    case True
    with h assms show ?thesis
      by (auto simp: check_rate_limit_loaded check_state_daily allowed_def)
  next
    case d: False
    from check_state_calm [OF h d assms(4)] obtain delay msg where
      c: "check_state cfg now s
            = ((True, delay, msg),
               Some (if observed_ratio cfg now s < 1 \<and> penalty_level s > 0
                        \<and> now - last_violation_time s > 60
                     then (normalized now s)\<lparr>penalty_level := max 0 (penalty_level s - 1)\<rparr>
                     else normalized now s))"
      by blast
    from assms(1-3) c show ?thesis
      by (auto simp: check_rate_limit_loaded save_state_def load_state_def from_dict_to_dict
          normalized_frame allowed_def)
  qed
qed

theorem good_behavior_decay_witness:
  "\<exists>r f' s'. check_rate_limit default_config 1000 True (Parsed (JDict (to_dict cooled_state)))
       = Inr (r, f')
     \<and> allowed r \<and> observed_ratio default_config 1000 cooled_state < 1
     \<and> 0 < penalty_level cooled_state \<and> 60 < 1000 - last_violation_time cooled_state
     \<and> load_state f' = Inr s' \<and> penalty_level s' = 0"
proof -
  let ?f = "Parsed (JDict (to_dict cooled_state))"
  have e: "\<not> RATE_LIMITING_DISABLED default_config" by (simp add: default_config_def)
  have l: "load_state ?f = Inr cooled_state"
    by (simp add: load_state_def from_dict_to_dict cooled_state_def fresh_state_def last_n_def)
  have r: "observed_ratio default_config 1000 cooled_state = 0"
    by (simp add: observed_ratio_def max_ratio_of_def count_requests_in_window_def
        prune_old_timestamps_def cooled_state_def fresh_state_def default_config_def)
  have nv: "\<not> BURST_DELAY_THRESHOLD \<le> observed_ratio default_config 1000 cooled_state"
    by (simp add: r BURST_DELAY_THRESHOLD_def)
  have p: "penalty_level cooled_state = 1" "last_violation_time cooled_state = 0"
    by (simp_all add: cooled_state_def fresh_state_def)
  have h: "\<not> RATE_LIMIT_PER_HOUR default_config \<le> hourly_count (normalized 1000 cooled_state)"
    and d: "\<not> RATE_LIMIT_PER_DAY default_config \<le> daily_count (normalized 1000 cooled_state)"
    by (simp_all add: normalized_hourly cooled_state_def fresh_state_def default_config_def)
  from check_state_proceeds [OF h d] obtain dl m s1 where
    cs: "check_state default_config 1000 cooled_state = ((True, dl, m), Some s1)"
    by blast
  define r0 :: decision where "r0 = (True, dl, m)"
  define f0 where "f0 = save_state True s1 ?f"
  have c: "check_rate_limit default_config 1000 True ?f = Inr (r0, f0)"
    using cs by (simp add: check_rate_limit_loaded [OF e l] r0_def f0_def)
  have a: "allowed r0" by (simp add: r0_def allowed_def)
  from good_behavior_decay [OF e l c nv] a r p c show ?thesis by auto
qed

subsection \<open>Continuous penalty decay\<close>

lemma effective_level_period:
  "effective_level s (now + PENALTY_DECAY_MINUTES * 60) = effective_level s now - 1"
  by (simp add: effective_level_def Let_def PENALTY_DECAY_MINUTES_def field_simps)

lemma penalty_powr_step:
  "PENALTY_MULTIPLIER powr (x - 1 - 1) = PENALTY_MULTIPLIER powr (x - 1) / 2"
  by (simp add: PENALTY_MULTIPLIER_def powr_diff)

text \<open>
  What \<open>_calculate_current_penalty\<close> computes for a positive penalty level. One decay
  period later the effective level is lower by 1. The delay is 0 when the effective level
  is not positive and otherwise \<open>base * multiplier ^ (effective_level - 1)\<close> capped at
  the maximum, so one decay period divides the delay by 2 as long as the effective level
  stays positive and the earlier delay was under the cap.
\<close>

lemma decay_period_step:
  assumes "0 < penalty_level s"
  shows "effective_level s (now + PENALTY_DECAY_MINUTES * 60) = effective_level s now - 1
    \<and> calculate_current_penalty s now
        = (if effective_level s now \<le> 0 then 0
           else min (BASE_PENALTY_SECONDS * PENALTY_MULTIPLIER powr (effective_level s now - 1))
                    MAX_PENALTY_SECONDS)
    \<and> (0 < effective_level s (now + PENALTY_DECAY_MINUTES * 60)
         \<and> BASE_PENALTY_SECONDS * PENALTY_MULTIPLIER powr (effective_level s now - 1)
             \<le> MAX_PENALTY_SECONDS
       \<longrightarrow> calculate_current_penalty s (now + PENALTY_DECAY_MINUTES * 60)
             = calculate_current_penalty s now / 2)"
proof (intro conjI impI)
  show "effective_level s (now + PENALTY_DECAY_MINUTES * 60) = effective_level s now - 1"
    by (rule effective_level_period)
  show "calculate_current_penalty s now
        = (if effective_level s now \<le> 0 then 0
           else min (BASE_PENALTY_SECONDS * PENALTY_MULTIPLIER powr (effective_level s now - 1))
                    MAX_PENALTY_SECONDS)"
    using assms by (simp add: calculate_current_penalty_def)
next
  assume a: "0 < effective_level s (now + PENALTY_DECAY_MINUTES * 60)
         \<and> BASE_PENALTY_SECONDS * PENALTY_MULTIPLIER powr (effective_level s now - 1)
             \<le> MAX_PENALTY_SECONDS"
  then have pos: "0 < effective_level s now - 1" "0 < effective_level s now"
    by (simp_all add: effective_level_period)
  have half: "BASE_PENALTY_SECONDS * PENALTY_MULTIPLIER powr (effective_level s now - 2)
        = BASE_PENALTY_SECONDS * PENALTY_MULTIPLIER powr (effective_level s now - 1) / 2"
    using penalty_powr_step [of "effective_level s now"] by simp
  have nn: "0 \<le> BASE_PENALTY_SECONDS * PENALTY_MULTIPLIER powr (effective_level s now - 1)"
    by (simp add: BASE_PENALTY_SECONDS_def)
  from a nn have le: "BASE_PENALTY_SECONDS * PENALTY_MULTIPLIER powr (effective_level s now - 1) / 2
        \<le> MAX_PENALTY_SECONDS"
    by linarith
  from assms pos a le show "calculate_current_penalty s (now + PENALTY_DECAY_MINUTES * 60)
             = calculate_current_penalty s now / 2"
    by (simp add: calculate_current_penalty_def effective_level_period half min_def)
qed

lemma decay_period_step_level_4:
  "0 < penalty_level penalised_state
   \<and> effective_level penalised_state 0 = 4
   \<and> effective_level penalised_state (0 + PENALTY_DECAY_MINUTES * 60) = 3
   \<and> calculate_current_penalty penalised_state 0 = 24
   \<and> calculate_current_penalty penalised_state (0 + PENALTY_DECAY_MINUTES * 60) = 12"
proof -
  have p: "0 < penalty_level penalised_state" by (simp add: penalised_state_def)
  have e: "effective_level penalised_state 0 = 4"
    by (simp add: effective_level_def penalised_state_def fresh_state_def)
  have pw: "PENALTY_MULTIPLIER powr 3 = 8" by (simp add: PENALTY_MULTIPLIER_def)
  note c = decay_period_step [OF p, of 0]
  from c e have e3: "effective_level penalised_state (0 + PENALTY_DECAY_MINUTES * 60) = 3"
    by simp
  from c e pw have c0: "calculate_current_penalty penalised_state 0 = 24"
    by (simp add: BASE_PENALTY_SECONDS_def MAX_PENALTY_SECONDS_def)
  from c e e3 pw c0
  have c1: "calculate_current_penalty penalised_state (0 + PENALTY_DECAY_MINUTES * 60) = 12"
    by (simp add: BASE_PENALTY_SECONDS_def MAX_PENALTY_SECONDS_def)
  from p e e3 c0 c1 show ?thesis by simp
qed

text \<open>
  C4. The claim, like the comment above the computation in the source
  (\<open>Each decay period halves the effective penalty level\<close>), has one decay period halve
  the effective level. The code subtracts instead. From level 4 with the violation at
  instant 0 the delay is 24 seconds; one decay period later the effective level is 3, not
  the half of 4, and the delay is 12 seconds, where a halved level of 2 would give 6.
\<close>

theorem decay_subtracts_not_halves:
  "effective_level penalised_state 0 = 4
   \<and> calculate_current_penalty penalised_state 0 = 24
   \<and> effective_level penalised_state (0 + PENALTY_DECAY_MINUTES * 60) = 3
   \<and> effective_level penalised_state (0 + PENALTY_DECAY_MINUTES * 60)
       \<noteq> effective_level penalised_state 0 / 2
   \<and> calculate_current_penalty penalised_state (0 + PENALTY_DECAY_MINUTES * 60) = 12"
  by (simp add: effective_level_def calculate_current_penalty_def Let_def penalised_state_def
      fresh_state_def PENALTY_DECAY_MINUTES_def PENALTY_MULTIPLIER_def BASE_PENALTY_SECONDS_def
      MAX_PENALTY_SECONDS_def)

subsection \<open>The hourly cap\<close>

lemma check_state_saved_counts:
  assumes "check_state cfg now s = (r, Some s')"
  shows "hourly_count s' = hourly_count (normalized now s)
         \<and> daily_count s' = daily_count (normalized now s)"
proof (cases "RATE_LIMIT_PER_HOUR cfg \<le> hourly_count (normalized now s)")
  case True
  with assms show ?thesis by (simp add: check_state_hourly)
next
  case h: False
  show ?thesis
  proof (cases "RATE_LIMIT_PER_DAY cfg \<le> daily_count (normalized now s)")
    case True
    with h assms show ?thesis by (simp add: check_state_daily)
  next
    case d: False
    show ?thesis
    proof (cases "BURST_DELAY_THRESHOLD \<le> observed_ratio cfg now s")
      case True
      with h d assms show ?thesis by (auto simp: check_state_violation Let_def)
    next
      case False
      with h d check_state_calm [of cfg now s] assms show ?thesis
        by (auto split: if_splits)
    qed
  qed
qed

lemma check_refused_hourly:
  assumes "\<not> RATE_LIMITING_DISABLED cfg" and "load_state f = Inr s"
    and "RATE_LIMIT_PER_HOUR cfg \<le> hourly_count s" and "now < hourly_reset s"
  shows "check_rate_limit cfg now ok f
           = Inr ((False, 0, Some (hourly_message cfg (hourly_reset s - now))), f)"
proof -
  from assms(3,4) have "RATE_LIMIT_PER_HOUR cfg \<le> hourly_count (normalized now s)"
    and "hourly_reset (normalized now s) = hourly_reset s"
    by (simp_all add: normalized_hourly)
  with check_state_hourly [of cfg now s] assms(1,2) show ?thesis
    by (simp add: check_rate_limit_loaded)
qed

lemma run_checks_refused_hourly:
  assumes "\<not> RATE_LIMITING_DISABLED cfg" and "load_state f = Inr s"
    and "RATE_LIMIT_PER_HOUR cfg \<le> hourly_count s"
  shows "\<forall>c\<in>set cs. fst c < hourly_reset s \<Longrightarrow>
         run_calls cfg (map (\<lambda>c. Check (fst c) (snd c)) cs) f
           = Inr (map (\<lambda>c. (False, 0, Some (hourly_message cfg (hourly_reset s - fst c)))) cs, f)"
proof (induction cs)
  case Nil
  then show ?case by simp
next
  case (Cons c cs)
  then have "fst c < hourly_reset s" by simp
  from check_refused_hourly [OF assms this] Cons show ?case by simp
qed

text \<open>
  C2, as the code has it. With limiting enabled and a stored \<open>hourly_count\<close> at or above
  the hourly limit: every check of a sequence of checks made before the stored
  \<open>hourly_reset\<close> is refused with delay 0 and the hourly message, which states the whole
  minutes until the reset, and the state file stays as it is. When the hourly limit is at
  least 1, a check at or after \<open>hourly_reset\<close> decides on an \<open>hourly_count\<close> of 0 and is
  not refused on the hourly cap: either it is allowed and the state handed to
  \<open>_save_state\<close> has \<open>hourly_count\<close> 0, or it is refused on the daily cap.
\<close>

theorem hourly_cap:
  assumes "\<not> RATE_LIMITING_DISABLED cfg" and "load_state f = Inr s"
    and "RATE_LIMIT_PER_HOUR cfg \<le> hourly_count s"
  shows "((\<forall>c\<in>set cs. fst c < hourly_reset s) \<longrightarrow>
           run_calls cfg (map (\<lambda>c. Check (fst c) (snd c)) cs) f
             = Inr (map (\<lambda>c. (False, 0, Some (hourly_message cfg (hourly_reset s - fst c)))) cs,
                    f))
       \<and> (hourly_reset s \<le> now \<and> 0 < RATE_LIMIT_PER_HOUR cfg \<longrightarrow>
            hourly_count (normalized now s) = 0
          \<and> (\<exists>r f'. check_rate_limit cfg now ok f = Inr (r, f')
               \<and> ((allowed r \<and> (\<exists>s'. check_state cfg now s = (r, Some s')
                       \<and> f' = save_state ok s' f \<and> hourly_count s' = 0))
                  \<or> (r = (False, 0,
                            Some (daily_message cfg (daily_reset (normalized now s) - now)))
                       \<and> RATE_LIMIT_PER_DAY cfg \<le> daily_count (normalized now s)
                       \<and> f' = f))))"
proof (intro conjI impI)
  assume "\<forall>c\<in>set cs. fst c < hourly_reset s"
  with run_checks_refused_hourly [OF assms]
  show "run_calls cfg (map (\<lambda>c. Check (fst c) (snd c)) cs) f
          = Inr (map (\<lambda>c. (False, 0, Some (hourly_message cfg (hourly_reset s - fst c)))) cs, f)"
    by blast
next
  assume a: "hourly_reset s \<le> now \<and> 0 < RATE_LIMIT_PER_HOUR cfg"
  then show z: "hourly_count (normalized now s) = 0" by (simp add: normalized_hourly)
  from a z have h: "\<not> RATE_LIMIT_PER_HOUR cfg \<le> hourly_count (normalized now s)" by simp
  show "\<exists>r f'. check_rate_limit cfg now ok f = Inr (r, f')
               \<and> ((allowed r \<and> (\<exists>s'. check_state cfg now s = (r, Some s')
                       \<and> f' = save_state ok s' f \<and> hourly_count s' = 0))
                  \<or> (r = (False, 0,
                            Some (daily_message cfg (daily_reset (normalized now s) - now)))
                       \<and> RATE_LIMIT_PER_DAY cfg \<le> daily_count (normalized now s)
                       \<and> f' = f))"
  proof (cases "RATE_LIMIT_PER_DAY cfg \<le> daily_count (normalized now s)")
    case True
    with h assms(1,2) show ?thesis
      by (simp add: check_rate_limit_loaded check_state_daily)
  next
    case False
    from check_state_proceeds [OF h False] obtain d m s' where
      c: "check_state cfg now s = ((True, d, m), Some s')" by blast
    from check_state_saved_counts [OF c] z have "hourly_count s' = 0" by simp
    with c assms(1,2) show ?thesis
      by (simp add: check_rate_limit_loaded allowed_def)
  qed
qed

theorem hourly_cap_witness:
  "load_state (Parsed (JDict (to_dict capped_state))) = Inr capped_state
   \<and> RATE_LIMIT_PER_HOUR default_config \<le> hourly_count capped_state
   \<and> run_calls default_config [Check 1000 True, Check 4999 False]
        (Parsed (JDict (to_dict capped_state)))
       = Inr ([(False, 0, Some (hourly_message default_config 4000)),
               (False, 0, Some (hourly_message default_config 1))],
              Parsed (JDict (to_dict capped_state)))
   \<and> (\<exists>r f' s'. check_rate_limit default_config 5000 True
                    (Parsed (JDict (to_dict capped_state))) = Inr (r, f')
          \<and> allowed r \<and> load_state f' = Inr s' \<and> hourly_count s' = 0)"
proof -
  let ?f = "Parsed (JDict (to_dict capped_state))"
  have e: "\<not> RATE_LIMITING_DISABLED default_config" by (simp add: default_config_def)
  have c: "RATE_LIMIT_PER_HOUR default_config \<le> hourly_count capped_state"
    by (simp add: default_config_def capped_state_def)
  have r: "hourly_reset capped_state = 5000" by (simp add: capped_state_def)
  have d: "\<not> RATE_LIMIT_PER_DAY default_config \<le> daily_count (normalized 5000 capped_state)"
    by (simp add: normalized_hourly capped_state_def fresh_state_def default_config_def)
  note t = hourly_cap [OF e capped_state_file c, of "[(1000, True), (4999, False)]" 5000 True]
  from t r have run: "run_calls default_config [Check 1000 True, Check 4999 False] ?f
       = Inr ([(False, 0, Some (hourly_message default_config 4000)),
               (False, 0, Some (hourly_message default_config 1))], ?f)"
    by simp
  from t r d obtain r0 f0 s0 where
    "check_rate_limit default_config 5000 True ?f = Inr (r0, f0)" "allowed r0"
    "f0 = save_state True s0 ?f" "hourly_count s0 = 0"
    by (auto simp: default_config_def)
  then have "\<exists>r f' s'. check_rate_limit default_config 5000 True ?f = Inr (r, f')
          \<and> allowed r \<and> load_state f' = Inr s' \<and> hourly_count s' = 0"
    by (auto simp: save_state_def load_state_def from_dict_to_dict)
  with capped_state_file c run show ?thesis by simp
qed

text \<open>
  C2 as stated fails when the hourly limit is 0. A fresh state has \<open>hourly_count\<close> 0,
  which has reached the limit; a check at instant 1000, after the stored \<open>hourly_reset\<close>
  of 0, resets \<open>hourly_count\<close> to 0 and is still refused on the hourly cap.
\<close>

theorem zero_hourly_limit_still_refuses:
  "load_state Missing = Inr fresh_state
   \<and> RATE_LIMIT_PER_HOUR zero_hourly_config \<le> hourly_count fresh_state
   \<and> hourly_reset fresh_state \<le> 1000
   \<and> hourly_count (normalized 1000 fresh_state) = 0
   \<and> check_rate_limit zero_hourly_config 1000 True Missing
       = Inr ((False, 0, Some (hourly_message zero_hourly_config 3600)), Missing)"
proof -
  have e: "\<not> RATE_LIMITING_DISABLED zero_hourly_config"
    by (simp add: zero_hourly_config_def default_config_def)
  have l: "load_state Missing = Inr fresh_state" by (simp add: load_state_def)
  have n: "hourly_count (normalized 1000 fresh_state) = 0"
    "hourly_reset (normalized 1000 fresh_state) = 4600"
    by (simp_all add: normalized_hourly fresh_state_def)
  have c: "check_state zero_hourly_config 1000 fresh_state
             = ((False, 0, Some (hourly_message zero_hourly_config 3600)), None)"
    using check_state_hourly [of zero_hourly_config 1000 fresh_state] n
    by (simp add: zero_hourly_config_def default_config_def)
  from l n c show ?thesis
    by (simp add: check_rate_limit_loaded [OF e l])
       (simp add: zero_hourly_config_def default_config_def fresh_state_def)
qed

subsection \<open>Histories with few records\<close>

lemma normalized_counts_le:
  "hourly_count s \<le> int k \<Longrightarrow> hourly_count (normalized now s) \<le> int k"
  "daily_count s \<le> int k \<Longrightarrow> daily_count (normalized now s) \<le> int k"
  by (simp_all add: normalized_hourly)

lemma record_state_counts:
  "hourly_count (record_state now s)
     = hourly_count (normalized now (s\<lparr>timestamps := timestamps s @ [now]\<rparr>)) + 1"
  "daily_count (record_state now s)
     = daily_count (normalized now (s\<lparr>timestamps := timestamps s @ [now]\<rparr>)) + 1"
  by (simp_all add: record_state_def normalized_def Let_def)

lemma record_keeps_counts_within:
  assumes "counts_within k f"
  shows "\<exists>f'. record_request cfg now ok f = Inr f' \<and> counts_within (Suc k) f'"
proof -
  from assms obtain s where l: "load_state f = Inr s"
    and h: "hourly_count s \<le> int k" and d: "daily_count s \<le> int k"
    by (auto simp: counts_within_def)
  have hs: "hourly_count (record_state now s) \<le> int (Suc k)"
    using h by (simp add: record_state_counts normalized_hourly)
  have ds: "daily_count (record_state now s) \<le> int (Suc k)"
    using d by (simp add: record_state_counts normalized_hourly)
  show ?thesis
  proof (cases "RATE_LIMITING_DISABLED cfg \<or> \<not> ok")
    case True
    with l h d show ?thesis
      by (auto simp: record_request_def save_state_def counts_within_def)
  next
    case False
    with l hs ds show ?thesis
      by (auto simp: record_request_def counts_within_def load_save)
  qed
qed

lemma check_allowed_within:
  assumes "counts_within k f"
    and "int k < RATE_LIMIT_PER_HOUR cfg" and "int k < RATE_LIMIT_PER_DAY cfg"
  shows "\<exists>r f'. check_rate_limit cfg now ok f = Inr (r, f') \<and> allowed r \<and> counts_within k f'"
proof (cases "RATE_LIMITING_DISABLED cfg")
  case True
  with assms(1) show ?thesis by (simp add: check_rate_limit_def allowed_def)
next
  case en: False
  from assms(1) obtain s where l: "load_state f = Inr s"
    and h: "hourly_count s \<le> int k" and d: "daily_count s \<le> int k"
    by (auto simp: counts_within_def)
  from normalized_counts_le(1) [OF h, of now] assms(2)
  have nh: "\<not> RATE_LIMIT_PER_HOUR cfg \<le> hourly_count (normalized now s)" by simp
  from normalized_counts_le(2) [OF d, of now] assms(3)
  have nd: "\<not> RATE_LIMIT_PER_DAY cfg \<le> daily_count (normalized now s)" by simp
  from check_state_proceeds [OF nh nd] obtain dl m s' where
    c: "check_state cfg now s = ((True, dl, m), Some s')" by blast
  from check_state_saved_counts [OF c] normalized_counts_le [of s k now] h d
  have b: "hourly_count s' \<le> int k" "daily_count s' \<le> int k" by simp_all
  show ?thesis
  proof (cases ok)
    case True
    with en l c b show ?thesis
      by (auto simp: check_rate_limit_loaded allowed_def counts_within_def load_save)
  next
    case False
    with en l c h d show ?thesis
      by (auto simp: check_rate_limit_loaded allowed_def counts_within_def save_state_def)
  qed
qed

lemma run_calls_allowed:
  assumes "int (k + length (filter is_record cs)) < RATE_LIMIT_PER_HOUR cfg"
    and "int (k + length (filter is_record cs)) < RATE_LIMIT_PER_DAY cfg"
    and "counts_within k f"
  shows "\<exists>rs f'. run_calls cfg cs f = Inr (rs, f') \<and> (\<forall>r\<in>set rs. allowed r)"
  using assms
proof (induction cs arbitrary: k f)
  case Nil
  then show ?case by simp
next
  case (Cons c cs)
  show ?case
  proof (cases c)
    case (Check now ok)
    from Cons.prems have lim: "int k < RATE_LIMIT_PER_HOUR cfg" "int k < RATE_LIMIT_PER_DAY cfg"
      by simp_all
    from check_allowed_within [OF Cons.prems(3) lim, of now ok] obtain r f1 where
      c: "check_rate_limit cfg now ok f = Inr (r, f1)" "allowed r" "counts_within k f1"
      by blast
    from Cons.prems Check have
      "int (k + length (filter is_record cs)) < RATE_LIMIT_PER_HOUR cfg"
      "int (k + length (filter is_record cs)) < RATE_LIMIT_PER_DAY cfg"
      by simp_all
    from Cons.IH [OF this c(3)] obtain rs f2 where
      "run_calls cfg cs f1 = Inr (rs, f2)" "\<forall>r\<in>set rs. allowed r" by blast
    with c Check show ?thesis by simp
  next
    case (Record now ok)
    from record_keeps_counts_within [OF Cons.prems(3), of cfg now ok] obtain f1 where
      r: "record_request cfg now ok f = Inr f1" "counts_within (Suc k) f1" by blast
    from Cons.prems Record have
      "int (Suc k + length (filter is_record cs)) < RATE_LIMIT_PER_HOUR cfg"
      "int (Suc k + length (filter is_record cs)) < RATE_LIMIT_PER_DAY cfg"
      by simp_all
    from Cons.IH [OF this r(2)] r(1) Record show ?thesis by simp
  qed
qed

text \<open>
  C5. Starting from no state file, with the default configuration, in any history of
  \<open>check_rate_limit\<close> and \<open>record_request\<close> calls that holds fewer than limit/hour
  records, every call returns normally and every check is allowed. The spacing of the
  records plays no part: the two hard caps are the only refusals, and both stored counters
  stay at or below the number of records made so far, whatever the instants of the calls
  and whether or not each write succeeds.
\<close>

theorem few_records_never_refused:
  assumes "int (length (filter is_record cs)) < RATE_LIMIT_PER_HOUR default_config"
  shows "\<exists>rs f'. run_calls default_config cs Missing = Inr (rs, f') \<and> (\<forall>r\<in>set rs. allowed r)"
proof -
  have w: "counts_within 0 Missing"
    by (simp add: counts_within_def load_state_def fresh_state_def)
  from assms have "int (0 + length (filter is_record cs)) < RATE_LIMIT_PER_HOUR default_config"
    and "int (0 + length (filter is_record cs)) < RATE_LIMIT_PER_DAY default_config"
    by (simp_all add: default_config_def)
  from run_calls_allowed [OF this w] show ?thesis .
qed

theorem few_records_never_refused_witness:
  "\<exists>r1 r2 f'. run_calls default_config
        [Record 0 True, Check 30 True, Record 60 True, Check 120 True] Missing
      = Inr ([r1, r2], f') \<and> allowed r1 \<and> allowed r2"
proof -
  have "int (length (filter is_record
           [Record 0 True, Check 30 True, Record 60 True, Check 120 True]))
         < RATE_LIMIT_PER_HOUR default_config"
    by (simp add: default_config_def)
  from few_records_never_refused [OF this] obtain rs f' where
    r: "run_calls default_config
          [Record 0 True, Check 30 True, Record 60 True, Check 120 True] Missing = Inr (rs, f')"
    and a: "\<forall>r\<in>set rs. allowed r" by blast
  from r have "length rs = 2"
    by (auto split: sum.splits prod.splits)
  then obtain r1 r2 where "rs = [r1, r2]"
    by (cases rs; cases "tl rs"; auto)
  with r a show ?thesis by auto
qed

subsection \<open>A burst followed by a check\<close>

lemma recent_run_snoc: "c < t \<Longrightarrow> recent_run c (xs @ [t]) = Suc (recent_run c xs)"
  by (simp add: recent_run_def)

lemma takeWhile_filter_le:
  "(\<And>z. Q z \<Longrightarrow> P z) \<Longrightarrow> length (takeWhile Q ys) \<le> length (takeWhile Q (filter P ys))"
  by (induction ys) auto

lemma recent_run_filter:
  "(\<And>z. c < z \<Longrightarrow> P z) \<Longrightarrow> recent_run c xs \<le> recent_run c (filter P xs)"
  unfolding recent_run_def rev_filter by (rule takeWhile_filter_le)

lemma takeWhile_take_length:
  "length (takeWhile Q (take k ys)) = min k (length (takeWhile Q ys))"
proof (induction ys arbitrary: k)
  case Nil
  then show ?case by simp
next
  case (Cons y ys)
  then show ?case by (cases k) auto
qed

lemma recent_run_last_n: "recent_run c (last_n k xs) = min k (recent_run c xs)"
proof -
  have "rev (last_n k xs) = take k (rev xs)"
    by (cases "k \<le> length xs") (simp_all add: last_n_def rev_drop)
  then show ?thesis by (simp add: recent_run_def takeWhile_take_length)
qed

lemma takeWhile_le_filter: "length (takeWhile Q ys) \<le> length (filter Q ys)"
  by (induction ys) auto

lemma recent_run_le_count: "recent_run c xs \<le> length (filter (\<lambda>z. c < z) xs)"
proof -
  have "length (filter (\<lambda>z. c < z) (rev xs)) = length (filter (\<lambda>z. c < z) xs)"
    by (simp flip: rev_filter)
  with takeWhile_le_filter [of "\<lambda>z. c < z" "rev xs"] show ?thesis
    by (simp add: recent_run_def)
qed

lemma record_stored_recent:
  assumes "c < t" and "t - 3600 \<le> c"
  shows "recent_run c (last_n 500 (prune_old_timestamps (xs @ [t]) t))
           \<ge> min 500 (Suc (recent_run c xs))"
proof -
  have "recent_run c (xs @ [t]) \<le> recent_run c (prune_old_timestamps (xs @ [t]) t)"
    unfolding prune_old_timestamps_def Let_def
    using assms(2) by (intro recent_run_filter) simp
  with assms(1) show ?thesis
    by (simp add: recent_run_last_n recent_run_snoc)
qed

lemma record_request_recent:
  assumes "\<not> RATE_LIMITING_DISABLED cfg" and "load_state f = Inr s"
    and "c < t" and "t - 3600 \<le> c"
  shows "\<exists>f' s'. record_request cfg t True f = Inr f' \<and> load_state f' = Inr s'
           \<and> penalty_level s' = penalty_level s
           \<and> min 500 (Suc (recent_run c (timestamps s))) \<le> recent_run c (timestamps s')"
  using assms record_stored_recent [OF assms(3,4), of "timestamps s"]
  by (simp add: record_request_def load_save record_state_frame record_state_normalized)

lemma burst_recent:
  assumes "\<not> RATE_LIMITING_DISABLED cfg"
  shows "load_state f = Inr s \<Longrightarrow> \<forall>t\<in>set ts. c < t \<and> t - 3600 \<le> c \<Longrightarrow>
         \<exists>f1 s1. run_calls cfg (burst ts @ cs) f = run_calls cfg cs f1
            \<and> load_state f1 = Inr s1 \<and> penalty_level s1 = penalty_level s
            \<and> min 500 (length ts + recent_run c (timestamps s)) \<le> recent_run c (timestamps s1)"
proof (induction ts arbitrary: f s)
  case Nil
  then show ?case by (auto simp: burst_def)
next
  case (Cons t ts)
  then have t: "c < t" "t - 3600 \<le> c" and rest: "\<forall>t\<in>set ts. c < t \<and> t - 3600 \<le> c"
    by simp_all
  from record_request_recent [OF assms Cons.prems(1) t] obtain f' s' where
    r: "record_request cfg t True f = Inr f'" "load_state f' = Inr s'"
       "penalty_level s' = penalty_level s"
       "min 500 (Suc (recent_run c (timestamps s))) \<le> recent_run c (timestamps s')"
    by blast
  from Cons.IH [OF r(2) rest] obtain f1 s1 where
    i: "run_calls cfg (burst ts @ cs) f' = run_calls cfg cs f1" "load_state f1 = Inr s1"
       "penalty_level s1 = penalty_level s'"
       "min 500 (length ts + recent_run c (timestamps s')) \<le> recent_run c (timestamps s1)"
    by blast
  from r(4) i(4)
  have "min 500 (length (t # ts) + recent_run c (timestamps s)) \<le> recent_run c (timestamps s1)"
    by simp
  with r i show ?case by (auto simp: burst_def)
qed

lemma ratio_after_burst:
  assumes "0 < RATE_LIMIT_PER_MINUTE cfg"
    and "BURST_DELAY_THRESHOLD * real_of_int (RATE_LIMIT_PER_MINUTE cfg)
           \<le> real (recent_run (now - 60) (timestamps s))"
  shows "BURST_DELAY_THRESHOLD \<le> observed_ratio cfg now s"
proof -
  let ?p = "prune_old_timestamps (timestamps s) now"
  let ?L = "real_of_int (RATE_LIMIT_PER_MINUTE cfg)"
  have "recent_run (now - 60) (timestamps s) \<le> recent_run (now - 60) ?p"
    unfolding prune_old_timestamps_def Let_def by (intro recent_run_filter) simp
  also have "\<dots> \<le> length (filter (\<lambda>z. now - 60 < z) ?p)" by (rule recent_run_le_count)
  finally have "real (recent_run (now - 60) (timestamps s))
      \<le> real_of_int (count_requests_in_window ?p 60 now)"
    by (simp add: count_requests_in_window_def)
  with assms(2) have "BURST_DELAY_THRESHOLD * ?L \<le> real_of_int (count_requests_in_window ?p 60 now)"
    by linarith
  with assms(1) have "BURST_DELAY_THRESHOLD \<le> real_of_int (count_requests_in_window ?p 60 now) / ?L"
    by (simp add: pos_le_divide_eq)
  with assms(1) show ?thesis
    by (simp add: observed_ratio_def max_ratio_of_def Let_def le_max_iff_disj)
qed

lemma violation_delay_pos: "0 < violation_delay level"
  by (simp add: violation_delay_def BASE_PENALTY_SECONDS_def MAX_PENALTY_SECONDS_def
      PENALTY_MULTIPLIER_def)

lemma burst_then_check_core:
  assumes en: "\<not> RATE_LIMITING_DISABLED cfg" and l: "load_state f = Inr s"
    and pos: "0 < RATE_LIMIT_PER_MINUTE cfg"
    and need: "BURST_DELAY_THRESHOLD * real_of_int (RATE_LIMIT_PER_MINUTE cfg)
                 \<le> real (min 500 (length ts))"
    and win: "\<forall>t\<in>set ts. now - 60 < t \<and> t \<le> now"
  shows "\<exists>r f'. run_calls cfg (burst ts @ [Check now True]) f = Inr ([r], f')
     \<and> (allowed r \<longrightarrow>
          (\<exists>s' a b. load_state f' = Inr s'
             \<and> penalty_level s' = min (penalty_level s + 1) 10
             \<and> last_violation_time s' = now
             \<and> r = (True, violation_delay (min (penalty_level s + 1) 10),
                    Some (rate_limited_message a b (min (penalty_level s + 1) 10)
                            (violation_delay (min (penalty_level s + 1) 10))))))"
proof -
  from win have w: "\<forall>t\<in>set ts. now - 60 < t \<and> t - 3600 \<le> now - 60" by auto
  from burst_recent [OF en l w, of "[Check now True]"] obtain f1 s1 where
    b: "run_calls cfg (burst ts @ [Check now True]) f = run_calls cfg [Check now True] f1"
       "load_state f1 = Inr s1" "penalty_level s1 = penalty_level s"
       "min 500 (length ts + recent_run (now - 60) (timestamps s)) \<le> recent_run (now - 60) (timestamps s1)"
    by blast
  from b(4) have "min 500 (length ts) \<le> recent_run (now - 60) (timestamps s1)" by simp
  with need have "BURST_DELAY_THRESHOLD * real_of_int (RATE_LIMIT_PER_MINUTE cfg)
                 \<le> real (recent_run (now - 60) (timestamps s1))"
    by linarith
  from ratio_after_burst [OF pos this] have v: "BURST_DELAY_THRESHOLD \<le> observed_ratio cfg now s1" .
  show ?thesis
  proof (cases "RATE_LIMIT_PER_HOUR cfg \<le> hourly_count (normalized now s1)")
    case True
    with b en show ?thesis
      by (simp add: check_rate_limit_loaded check_state_hourly allowed_def)
  next
    case h: False
    show ?thesis
    proof (cases "RATE_LIMIT_PER_DAY cfg \<le> daily_count (normalized now s1)")
      case True
      with h b en show ?thesis
        by (simp add: check_rate_limit_loaded check_state_daily allowed_def)
    next
      case d: False
      let ?lv = "min (penalty_level s + 1) 10"
      let ?A = "count_requests_in_window (prune_old_timestamps (timestamps s1) now) 60 now"
      let ?B = "count_requests_in_window (prune_old_timestamps (timestamps s1) now) 600 now"
      let ?r = "(True, violation_delay ?lv,
                 Some (rate_limited_message ?A ?B ?lv (violation_delay ?lv)))"
      let ?s' = "(normalized now s1)\<lparr>penalty_level := ?lv, last_violation_time := now\<rparr>"
      from check_state_violation [OF h d v] b(3)
      have cs: "check_state cfg now s1 = (?r, Some ?s')"
        by (simp add: Let_def violation_delay_def)
      with b(1,2) en
      have run: "run_calls cfg (burst ts @ [Check now True]) f = Inr ([?r], save_state True ?s' f1)"
        by (simp add: check_rate_limit_loaded)
      have ld: "load_state (save_state True ?s' f1)
                  = Inr (?s'\<lparr>timestamps := last_n 500 (timestamps ?s')\<rparr>)"
        using b(2) by (simp add: load_save)
      have "\<exists>s' a b. load_state (save_state True ?s' f1) = Inr s'
             \<and> penalty_level s' = ?lv \<and> last_violation_time s' = now
             \<and> ?r = (True, violation_delay ?lv,
                      Some (rate_limited_message a b ?lv (violation_delay ?lv)))"
        unfolding ld by (intro exI conjI) (rule refl, simp, simp, rule refl)
      with run show ?thesis by blast
    qed
  qed
qed

text \<open>
  C1, as the code has it. With limiting enabled, a per-minute limit between 1 and 250
  and any readable prior state: after \<open>ceil(delay_ratio * limit/minute)\<close> or more
  records, all made within the 60 seconds before the check and none after it, the check
  returns normally, and unless it is refused on a hard cap it is allowed with a positive
  delay, namely \<open>base * multiplier ^ (level - 1)\<close> capped at the maximum, with the
  rate-limited message, and the stored penalty level is \<open>level = min (prior + 1) 10\<close>:
  one more than before, except at the cap of 10, where it stays. The upper bound on the
  limit is there because at most 500 timestamps are stored. At the default limits, 40
  records at one instant and a check one second later give exactly allowed, delay 3,
  the rate-limited message and level 1, as the instance after the theorem shows.
\<close>

theorem burst_then_check:
  assumes "\<not> RATE_LIMITING_DISABLED cfg" and "load_state f = Inr s"
    and "0 < RATE_LIMIT_PER_MINUTE cfg"
    and "\<lceil>BURST_DELAY_THRESHOLD * real_of_int (RATE_LIMIT_PER_MINUTE cfg)\<rceil> \<le> int (length ts)"
    and "\<lceil>BURST_DELAY_THRESHOLD * real_of_int (RATE_LIMIT_PER_MINUTE cfg)\<rceil> \<le> 500"
    and "\<forall>t\<in>set ts. now - 60 < t \<and> t \<le> now"
  shows "\<exists>r f'. run_calls cfg (burst ts @ [Check now True]) f = Inr ([r], f')
     \<and> (allowed r \<longrightarrow>
          0 < delay_seconds r
        \<and> delay_seconds r = violation_delay (min (penalty_level s + 1) 10)
        \<and> (\<exists>a b. message r
               = Some (rate_limited_message a b (min (penalty_level s + 1) 10) (delay_seconds r)))
        \<and> (\<exists>s'. load_state f' = Inr s'
               \<and> penalty_level s' = min (penalty_level s + 1) 10
               \<and> last_violation_time s' = now))"
proof -
  from assms(4,5) have "BURST_DELAY_THRESHOLD * real_of_int (RATE_LIMIT_PER_MINUTE cfg)
                 \<le> real (min 500 (length ts))"
    by (simp add: ceiling_le_iff)
  from burst_then_check_core [OF assms(1-3) this assms(6)] obtain r f' where
    c: "run_calls cfg (burst ts @ [Check now True]) f = Inr ([r], f')"
       "allowed r \<longrightarrow>
          (\<exists>s' a b. load_state f' = Inr s'
             \<and> penalty_level s' = min (penalty_level s + 1) 10
             \<and> last_violation_time s' = now
             \<and> r = (True, violation_delay (min (penalty_level s + 1) 10),
                    Some (rate_limited_message a b (min (penalty_level s + 1) 10)
                            (violation_delay (min (penalty_level s + 1) 10)))))"
    by blast
  have "allowed r \<longrightarrow>
          0 < delay_seconds r
        \<and> delay_seconds r = violation_delay (min (penalty_level s + 1) 10)
        \<and> (\<exists>a b. message r
               = Some (rate_limited_message a b (min (penalty_level s + 1) 10) (delay_seconds r)))
        \<and> (\<exists>s'. load_state f' = Inr s'
               \<and> penalty_level s' = min (penalty_level s + 1) 10
               \<and> last_violation_time s' = now)"
  proof
    assume "allowed r"
    with c(2) obtain s' a b where
      s': "load_state f' = Inr s'" "penalty_level s' = min (penalty_level s + 1) 10"
          "last_violation_time s' = now"
      and r: "r = (True, violation_delay (min (penalty_level s + 1) 10),
                   Some (rate_limited_message a b (min (penalty_level s + 1) 10)
                           (violation_delay (min (penalty_level s + 1) 10))))"
      by blast
    from r have d: "delay_seconds r = violation_delay (min (penalty_level s + 1) 10)"
      and m: "message r = Some (rate_limited_message a b (min (penalty_level s + 1) 10)
                                 (delay_seconds r))"
      by (simp_all add: delay_seconds_def message_def)
    from d have "0 < delay_seconds r" by (simp add: violation_delay_pos)
    with d m s' show "0 < delay_seconds r
        \<and> delay_seconds r = violation_delay (min (penalty_level s + 1) 10)
        \<and> (\<exists>a b. message r
               = Some (rate_limited_message a b (min (penalty_level s + 1) 10) (delay_seconds r)))
        \<and> (\<exists>s'. load_state f' = Inr s'
               \<and> penalty_level s' = min (penalty_level s + 1) 10
               \<and> last_violation_time s' = now)"
      by blast
  qed
  with c(1) show ?thesis by blast
qed

lemma burst_records:
  "length (filter is_record (burst ts)) = length ts"
  "length (filter is_record (burst ts @ [Check now ok])) = length ts"
  by (induction ts) (simp_all add: burst_def)

theorem burst_then_check_witness:
  "\<exists>a b f' s'. run_calls default_config (burst (replicate 40 1000) @ [Check 1001 True]) Missing
       = Inr ([(True, 3, Some (rate_limited_message a b 1 3))], f')
     \<and> load_state f' = Inr s' \<and> penalty_level s' = 1"
proof -
  let ?cs = "burst (replicate 40 1000) @ [Check 1001 True]"
  have e: "\<not> RATE_LIMITING_DISABLED default_config" by (simp add: default_config_def)
  have l: "load_state Missing = Inr fresh_state" by (simp add: load_state_def)
  have p: "0 < RATE_LIMIT_PER_MINUTE default_config" by (simp add: default_config_def)
  have n: "\<lceil>BURST_DELAY_THRESHOLD * real_of_int (RATE_LIMIT_PER_MINUTE default_config)\<rceil>
             \<le> int (length (replicate 40 (1000::real)))"
    and c: "\<lceil>BURST_DELAY_THRESHOLD * real_of_int (RATE_LIMIT_PER_MINUTE default_config)\<rceil> \<le> 500"
    by (simp_all add: BURST_DELAY_THRESHOLD_def default_config_def)
  have w: "\<forall>t\<in>set (replicate 40 (1000::real)). 1001 - 60 < t \<and> t \<le> 1001" by simp
  from burst_then_check [OF e l p n c w] obtain r f' where
    r: "run_calls default_config ?cs Missing = Inr ([r], f')"
    and i: "allowed r \<longrightarrow>
          0 < delay_seconds r
        \<and> delay_seconds r = violation_delay (min (penalty_level fresh_state + 1) 10)
        \<and> (\<exists>a b. message r
               = Some (rate_limited_message a b (min (penalty_level fresh_state + 1) 10)
                         (delay_seconds r)))
        \<and> (\<exists>s'. load_state f' = Inr s'
               \<and> penalty_level s' = min (penalty_level fresh_state + 1) 10
               \<and> last_violation_time s' = 1001)"
    by blast
  have k: "counts_within 0 Missing"
    by (simp add: counts_within_def load_state_def fresh_state_def)
  have "int (0 + length (filter is_record ?cs)) < RATE_LIMIT_PER_HOUR default_config"
    and "int (0 + length (filter is_record ?cs)) < RATE_LIMIT_PER_DAY default_config"
    by (simp_all add: burst_records default_config_def)
  from run_calls_allowed [OF this k] r have a: "allowed r" by auto
  have v: "violation_delay 1 = 3"
    by (simp add: violation_delay_def BASE_PENALTY_SECONDS_def MAX_PENALTY_SECONDS_def
        PENALTY_MULTIPLIER_def)
  have f: "penalty_level fresh_state = 0" by (simp add: fresh_state_def)
  from i a v f obtain a0 b0 s' where
    "delay_seconds r = 3" "message r = Some (rate_limited_message a0 b0 1 3)"
    "load_state f' = Inr s'" "penalty_level s' = 1"
    by auto
  moreover from a have "fst r = True" by (simp add: allowed_def)
  ultimately have "r = (True, 3, Some (rate_limited_message a0 b0 1 3))"
    "load_state f' = Inr s'" "penalty_level s' = 1"
    by (auto simp: delay_seconds_def message_def prod_eq_iff)
  with r show ?thesis by blast
qed

text \<open>
  C1 as stated fails at the level cap. The state file holds a penalty level of 10; after
  30 records at instant 1000 and a check at the same instant the call is allowed, and the
  stored penalty level is still 10, not 11.
\<close>

theorem burst_at_level_cap:
  "load_state (Parsed (JDict (to_dict maxed_state))) = Inr maxed_state
   \<and> penalty_level maxed_state = 10
   \<and> map allowed (decisions (run_calls default_config
         (burst (replicate 30 1000) @ [Check 1000 True]) (Parsed (JDict (to_dict maxed_state)))))
       = [True]
   \<and> stored_penalty_level (run_calls default_config
         (burst (replicate 30 1000) @ [Check 1000 True]) (Parsed (JDict (to_dict maxed_state))))
       = Some 10"
proof -
  let ?f = "Parsed (JDict (to_dict maxed_state))"
  let ?cs = "burst (replicate 30 1000) @ [Check 1000 True]"
  have e: "\<not> RATE_LIMITING_DISABLED default_config" by (simp add: default_config_def)
  have l: "load_state ?f = Inr maxed_state"
    by (simp add: load_state_def from_dict_to_dict maxed_state_def fresh_state_def last_n_def)
  have p: "0 < RATE_LIMIT_PER_MINUTE default_config" by (simp add: default_config_def)
  have n: "BURST_DELAY_THRESHOLD * real_of_int (RATE_LIMIT_PER_MINUTE default_config)
             \<le> real (min 500 (length (replicate 30 (1000::real))))"
    by (simp add: BURST_DELAY_THRESHOLD_def default_config_def)
  have w: "\<forall>t\<in>set (replicate 30 (1000::real)). 1000 - 60 < t \<and> t \<le> 1000" by simp
  from burst_then_check_core [OF e l p n w] obtain r f' where
    r: "run_calls default_config ?cs ?f = Inr ([r], f')"
    and i: "allowed r \<longrightarrow>
          (\<exists>s' a b. load_state f' = Inr s'
             \<and> penalty_level s' = min (penalty_level maxed_state + 1) 10
             \<and> last_violation_time s' = 1000
             \<and> r = (True, violation_delay (min (penalty_level maxed_state + 1) 10),
                    Some (rate_limited_message a b (min (penalty_level maxed_state + 1) 10)
                            (violation_delay (min (penalty_level maxed_state + 1) 10)))))"
    by blast
  have k: "counts_within 0 ?f"
    using l by (simp add: counts_within_def maxed_state_def fresh_state_def)
  have "int (0 + length (filter is_record ?cs)) < RATE_LIMIT_PER_HOUR default_config"
    and "int (0 + length (filter is_record ?cs)) < RATE_LIMIT_PER_DAY default_config"
    by (simp_all add: burst_records default_config_def)
  from run_calls_allowed [OF this k] r have a: "allowed r" by auto
  have m: "penalty_level maxed_state = 10" by (simp add: maxed_state_def)
  from i a m obtain s' where "load_state f' = Inr s'" "penalty_level s' = 10" by auto
  with r a l m show ?thesis
    by (simp add: decisions_def stored_penalty_level_def)
qed

end
